theory Spec2Isabelle
  imports Main "HOL-Library.AList" "HOL-Library.Char_ord" "HOL-Library.List_Lexorder" "HOL-Library.Multiset"
begin

section \<open>The dependency node of dephell (\<open>dephell/models/dependency.py\<close>)\<close>

text \<open>
  The class \<open>Dependency\<close> is embedded as a record together with one function per
  property or method. The instance dictionary of the Python object, in which
  \<open>cached_property\<close> stores the values of \<open>all_releases\<close>, \<open>groups\<close> and
  \<open>group\<close>, becomes three optional fields of the record: \<open>None\<close> means that the key
  is absent from \<open>__dict__\<close>. Every property that may fill a cache returns its value
  together with the updated node. Exceptions are values of the type \<open>error\<close>.

  Versions are any linearly ordered type \<open>'v\<close>: the version class and the ordering of
  releases come from outside of \<open>dependency.py\<close>.
\<close>

subsection \<open>Errors\<close>

datatype error =
    MergeError string
  | AttributeError
  | KeyError

subsection \<open>Source links\<close>

text \<open>
  A link is what \<open>parse_link\<close> returns. \<open>dependency.py\<close> reads four things of it:
  whether it is an instance of \<open>GitRepo\<close>, and its attributes \<open>name\<close>, \<open>rev\<close> and
  \<open>server\<close>. An attribute that holds Python's \<open>None\<close> is \<open>None\<close> here; the absence of
  a link (\<open>parse_link\<close> returned \<open>None\<close>) is \<open>None\<close> of \<open>link option\<close>.
\<close>

datatype link =
    GitRepo (git_server: string) (git_rev: "string option") (link_name: "string option")
  | PlainLink (link_name: "string option")

fun is_git :: "link option \<Rightarrow> bool" where
  "is_git (Some (GitRepo s r n)) = True"
| "is_git _ = False"

text \<open>Python's truth value of an attribute that is \<open>None\<close> or a string.\<close>

fun truthy :: "string option \<Rightarrow> bool" where
  "truthy None = False"
| "truthy (Some s) = (s \<noteq> [])"

fun link_rev :: "link option \<Rightarrow> string option" where
  "link_rev (Some (GitRepo s r n)) = r"
| "link_rev _ = None"

fun link_server :: "link option \<Rightarrow> string" where
  "link_server (Some (GitRepo s r n)) = s"
| "link_server _ = []"

subsection \<open>Releases and repositories\<close>

text \<open>
  A release carries its name, its version and its dependency list; the list is absent
  (\<open>None\<close>) as long as \<open>'dependencies'\<close> is not in the release's \<open>__dict__\<close>. A
  requirement of the list is represented by its string form, the only thing
  \<open>dependency.py\<close> reads of it (\<open>map(str, release.dependencies)\<close>). Releases compare by
  their versions.
\<close>

record 'v release =
  rname :: string
  version :: 'v
  dependencies :: "string list option"

text \<open>
  The repository handle: \<open>get_releases\<close> lists the releases of the package a node names,
  \<open>get_dependencies\<close> gives the dependency list of one release. Both are taken as total
  functions: failures of a fetch lie outside of this model.
\<close>

record 'v repo =
  get_releases :: "string \<Rightarrow> 'v release list"
  get_dependencies :: "string \<Rightarrow> 'v \<Rightarrow> string list"

subsection \<open>Constraints\<close>

text \<open>
  Modelled from the spec: the class \<open>Constraint\<close> (\<open>models/constraint.py\<close>) and the
  specifiers it stores are not among the sources. Following section 4.1 of the
  specification, a constraint is an ordered mapping from source names to version ranges; a
  range is a conjunction of comparison clauses, and \<open>GitSpecifier\<close> is the sentinel of a
  version-control source, which admits every release.
\<close>

datatype 'v clause = Ge 'v | Gt 'v | Le 'v | Lt 'v | Eq 'v | Ne 'v

datatype 'v specifier = RangeSpecifier "'v clause list" | GitSpecifier

type_synonym 'v constraint = "(string \<times> 'v specifier) list"

fun clause_holds :: "'v::linorder \<Rightarrow> 'v clause \<Rightarrow> bool" where
  "clause_holds v (Ge b) = (b \<le> v)"
| "clause_holds v (Gt b) = (b < v)"
| "clause_holds v (Le b) = (v \<le> b)"
| "clause_holds v (Lt b) = (v < b)"
| "clause_holds v (Eq b) = (v = b)"
| "clause_holds v (Ne b) = (v \<noteq> b)"

fun spec_contains :: "'v::linorder specifier \<Rightarrow> 'v \<Rightarrow> bool" where
  "spec_contains (RangeSpecifier cs) v = list_all (clause_holds v) cs"
| "spec_contains GitSpecifier v = True"

text \<open>
  Modelled from the spec: \<open>Constraint(source, spec)\<close> holds the one range contributed by
  \<open>source\<close>.
\<close>

definition Constraint :: "string \<Rightarrow> 'v clause list \<Rightarrow> 'v constraint" where
  "Constraint source spec = [(source, RangeSpecifier spec)]"

text \<open>
  Modelled from the spec: \<open>Constraint.filter\<close> returns exactly the releases whose version
  satisfies every contributed range; with no source, all releases pass.
\<close>

definition constraint_filter :: "'v::linorder constraint \<Rightarrow> 'v release list \<Rightarrow> 'v release list" where
  "constraint_filter c rs = filter (\<lambda>r. list_all (\<lambda>p. spec_contains (snd p) (version r)) c) rs"

text \<open>
  Modelled from the spec: \<open>Constraint.merge\<close> unions the two mappings; a source present on
  both sides must carry the same range on both, otherwise the merge fails with a
  \<open>MergeError\<close>.
\<close>

fun constraint_merge :: "'v constraint \<Rightarrow> 'v constraint \<Rightarrow> error + 'v constraint" where
  "constraint_merge c [] = Inr c"
| "constraint_merge c ((k, s) # rest) =
     (case map_of c k of
        None \<Rightarrow> constraint_merge (c @ [(k, s)]) rest
      | Some s' \<Rightarrow> if s' = s then constraint_merge c rest
                   else Inl (MergeError ''conflicting constraints''))"

text \<open>Modelled from the spec: \<open>Constraint.unapply\<close> removes a source's range, if any.\<close>

definition constraint_unapply :: "string \<Rightarrow> 'v constraint \<Rightarrow> 'v constraint" where
  "constraint_unapply name c = filter (\<lambda>p. fst p \<noteq> name) c"

subsection \<open>Groups\<close>

text \<open>
  Modelled from the spec: the class \<open>Group\<close> (\<open>models/group.py\<close>) is not among the
  sources. A group has a sequence number, the releases that share one fingerprint
  (\<open>all_releases\<close>) and those of them that the owner's constraint admits (\<open>releases\<close>);
  \<open>Group(releases=rs, number=n)\<close> starts with both sets equal to \<open>rs\<close>, and a group is
  \<open>empty\<close> when \<open>releases\<close> is. The Python sets of releases are lists without
  repetitions here; only their elements matter.
\<close>

record 'v group =
  number :: nat
  all_releases :: "'v release list"
  releases :: "'v release list"

definition Group :: "'v release list \<Rightarrow> nat \<Rightarrow> 'v group" where
  "Group rs n = \<lparr>number = n, all_releases = rs, releases = rs\<rparr>"

definition empty :: "'v group \<Rightarrow> bool" where
  "empty g = (releases g = [])"

subsection \<open>The node\<close>

text \<open>
  The fields of \<open>Dependency\<close> that the properties and methods below read or write, and
  the three cache entries of its \<open>__dict__\<close>. The selected group is a reference to one
  of the objects of the \<open>groups\<close> tuple: it is kept as the position of that object in
  the tuple, so that a later change of the object's \<open>releases\<close> is seen through it. The
  cached selection \<open>Some None\<close> is a cached Python \<open>None\<close>.
\<close>

record 'v node =
  raw_name :: string
  constraint :: "'v constraint"
  repo :: "'v repo"
  link :: "link option"
  all_releases_cache :: "'v release list option"
  groups_cache :: "'v group list option"
  group_cache :: "nat option option"

subsection \<open>Constructor \<open>from_params\<close>\<close>

text \<open>
  \<open>rex_hash = re.compile(r'[a-f0-9]{7}')\<close> with \<open>fullmatch\<close>: the whole string is seven
  characters of the class.
\<close>

definition hex_char :: "char \<Rightarrow> bool" where
  "hex_char c = (c \<in> set ''abcdef0123456789'')"

definition rex_hash_fullmatch :: "string \<Rightarrow> bool" where
  "rex_hash_fullmatch s = (length s = 7 \<and> list_all hex_char s)"

text \<open>
  The arguments \<open>constraint\<close> and \<open>source\<close> come in two shapes: a source together with
  the range it contributes, or no source and a ready constraint object.
\<close>

datatype 'v constraint_param =
    FromSource string "'v clause list"
  | Ready "'v constraint"

fun link_name_of :: "link option \<Rightarrow> string option" where
  "link_name_of None = None"
| "link_name_of (Some l) = link_name l"

text \<open>
  \<open>parse_link\<close> and \<open>get_repo\<close> are not among the sources and are parameters. With a
  \<open>GitRepo\<close> link and no source, \<open>source.name\<close> raises \<open>AttributeError\<close>. The keyword
  arguments passed through to the class are not modelled; the caches start absent.
\<close>

definition from_params ::
  "(string option \<Rightarrow> link option) \<Rightarrow> (link option \<Rightarrow> 'v repo) \<Rightarrow>
   string \<Rightarrow> 'v constraint_param \<Rightarrow> string option \<Rightarrow> 'v repo option \<Rightarrow> error + 'v node" where
  "from_params parse_link get_repo raw_name0 cparam url repo0 =
    (let lnk = parse_link url;
         raw_name1 = (if lnk \<noteq> None \<and> truthy (link_name_of lnk) \<and> rex_hash_fullmatch raw_name0
                      then the (link_name_of lnk) else raw_name0);
         constraint1 = (case cparam of FromSource source spec \<Rightarrow> Constraint source spec
                                     | Ready c \<Rightarrow> c)
     in case (if is_git lnk
              then (case cparam of
                      FromSource source spec \<Rightarrow>
                        Inr (AList.update source GitSpecifier constraint1)
                    | Ready c \<Rightarrow> Inl AttributeError)
              else Inr constraint1) of
          Inl e \<Rightarrow> Inl e
        | Inr constraint2 \<Rightarrow>
            Inr \<lparr>raw_name = raw_name1,
                 constraint = constraint2,
                 repo = (case repo0 of None \<Rightarrow> get_repo lnk | Some r \<Rightarrow> r),
                 link = lnk,
                 all_releases_cache = None,
                 groups_cache = None,
                 group_cache = None\<rparr>)"

subsection \<open>Properties \<open>all_releases\<close> and \<open>groups\<close>\<close>

text \<open>
  \<open>all_releases\<close> is a cached property: the repository is asked once. The repository
  receives the node; it is given the node's name here.
\<close>

definition dep_all_releases :: "'v node \<Rightarrow> 'v release list \<times> 'v node" where
  "dep_all_releases self =
    (case all_releases_cache self of
       Some rs \<Rightarrow> (rs, self)
     | None \<Rightarrow> (let rs = get_releases (repo self) (raw_name self)
               in (rs, self\<lparr>all_releases_cache := Some rs\<rparr>)))"

text \<open>
  \<open>_fetch_releases_deps\<close>: every release without a dependency list gets the one the
  repository returns; a release that has one is left alone. The release objects of the
  cached tuple are changed in place.
\<close>

definition fetch_release :: "'v repo \<Rightarrow> 'v release \<Rightarrow> 'v release" where
  "fetch_release rp r =
    (case dependencies r of
       None \<Rightarrow> r\<lparr>dependencies := Some (get_dependencies rp (rname r) (version r))\<rparr>
     | Some ds \<Rightarrow> r)"

definition fetch_releases_deps :: "'v node \<Rightarrow> 'v node" where
  "fetch_releases_deps self =
    (let (rs, s1) = dep_all_releases self
     in s1\<lparr>all_releases_cache := Some (map (fetch_release (repo s1)) rs)\<rparr>)"

text \<open>\<open>sep.join(xs)\<close> of Python.\<close>

fun join :: "string \<Rightarrow> string list \<Rightarrow> string" where
  "join sep [] = []"
| "join sep [x] = x"
| "join sep (x # y # ys) = x @ sep @ join sep (y # ys)"

text \<open>
  The key of a release: \<open>'|'.join(sorted(map(str, release.dependencies)))\<close>. Strings are
  ordered as Python orders them, lexicographically by character code.
\<close>

definition fingerprint :: "'v release \<Rightarrow> string" where
  "fingerprint r = join ''|'' (sort (the (dependencies r)))"

text \<open>
  \<open>groups[key].add(release)\<close> on a \<open>defaultdict(set)\<close>: a known key keeps its place in
  the dictionary and its set gets the release, a new key is appended with the singleton.
\<close>

fun add_release ::
  "string \<Rightarrow> 'v release \<Rightarrow> (string \<times> 'v release list) list \<Rightarrow> (string \<times> 'v release list) list" where
  "add_release key r [] = [(key, [r])]"
| "add_release key r ((k, rs) # bs) =
     (if k = key then (k, List.insert r rs) # bs else (k, rs) # add_release key r bs)"

definition group_by_dependencies :: "'v release list \<Rightarrow> (string \<times> 'v release list) list" where
  "group_by_dependencies rs = foldl (\<lambda>bs r. add_release (fingerprint r) r bs) [] rs"

text \<open>
  \<open>max\<close> of a set of releases, as the version of the greatest release. No set of the
  dictionary is empty, so the \<open>ValueError\<close> of \<open>max\<close> on an empty set has no equation.
\<close>

fun latest :: "'v::linorder release list \<Rightarrow> 'v" where
  "latest (r # rs) = fold (\<lambda>x m. max (version x) m) rs (version r)"

text \<open>
  \<open>sorted(groups.values(), key=max, reverse=True)\<close>: Python's sort is stable, also with
  \<open>reverse=True\<close>, where elements with equal keys keep their original order: the list is
  reversed, sorted ascending by a stable sort, and reversed again.
\<close>

definition sort_groups :: "'v::linorder release list list \<Rightarrow> 'v release list list" where
  "sort_groups bs = rev (sort_key latest (rev bs))"

definition make_groups :: "'v::linorder release list \<Rightarrow> 'v group list" where
  "make_groups rs =
    map (\<lambda>p. Group (snd p) (fst p))
      (enumerate 0 (sort_groups (map snd (group_by_dependencies rs))))"

text \<open>The loop of \<open>_actualize_groups\<close>: every group's \<open>releases\<close> is filtered anew.\<close>

definition filtrate_groups :: "'v::linorder constraint \<Rightarrow> 'v group list \<Rightarrow> 'v group list" where
  "filtrate_groups c gs = map (\<lambda>g. g\<lparr>releases := constraint_filter c (all_releases g)\<rparr>) gs"

text \<open>
  \<open>_actualize_groups(groups=gs)\<close>, the call at the end of \<open>groups\<close>, made while
  \<open>'groups'\<close> is not yet in \<open>__dict__\<close> and with \<open>force\<close> false: an empty tuple takes the
  branch that returns \<open>False\<close>, any other tuple is filtered.
\<close>

definition actualize_given :: "'v::linorder node \<Rightarrow> 'v group list \<Rightarrow> bool \<times> 'v group list" where
  "actualize_given self gs =
    (if gs = [] then (False, gs) else (True, filtrate_groups (constraint self) gs))"

definition groups :: "'v::linorder node \<Rightarrow> 'v group list \<times> 'v node" where
  "groups self =
    (case groups_cache self of
       Some gs \<Rightarrow> (gs, self)
     | None \<Rightarrow>
        (let s1 = fetch_releases_deps self;
             (rs, s2) = dep_all_releases s1;
             gs = snd (actualize_given s2 (make_groups rs))
         in (gs, s2\<lparr>groups_cache := Some gs\<rparr>)))"

text \<open>
  \<open>_actualize_groups(force=force)\<close> without the \<open>groups\<close> argument, the call of \<open>merge\<close>
  and \<open>unapply\<close>: the groups are read through the property (and computed if absent),
  then filtered in place.
\<close>

definition actualize_groups :: "bool \<Rightarrow> 'v::linorder node \<Rightarrow> bool \<times> 'v node" where
  "actualize_groups force self =
    (if \<not> force \<and> groups_cache self = None then (False, self)
     else (let (gs, s1) = groups self
           in (True, s1\<lparr>groups_cache := Some (filtrate_groups (constraint s1) gs)\<rparr>)))"

subsection \<open>Properties \<open>group\<close>, \<open>locked\<close> and \<open>compat\<close>\<close>

text \<open>
  The loop of \<open>group\<close>: the first group that is not empty, as its position in the tuple;
  falling off the loop returns Python's \<open>None\<close>.
\<close>

fun first_viable :: "nat \<Rightarrow> 'v group list \<Rightarrow> nat option" where
  "first_viable i [] = None"
| "first_viable i (g # gs) = (if \<not> empty g then Some i else first_viable (Suc i) gs)"

definition group :: "'v::linorder node \<Rightarrow> nat option \<times> 'v node" where
  "group self =
    (case group_cache self of
       Some sel \<Rightarrow> (sel, self)
     | None \<Rightarrow>
        (let (gs, s1) = groups self;
             sel = first_viable 0 gs
         in (sel, s1\<lparr>group_cache := Some sel\<rparr>)))"

text \<open>The group object behind a reference of a node.\<close>

definition group_at :: "'v node \<Rightarrow> nat \<Rightarrow> 'v group" where
  "group_at self i = the (groups_cache self) ! i"

definition locked :: "'v node \<Rightarrow> bool" where
  "locked self = (group_cache self \<noteq> None)"

text \<open>
  \<open>compat\<close>: a locked node answers from its cached selection, and \<open>None.empty\<close>
  raises \<open>AttributeError\<close>; an unlocked node scans the groups without selecting one.
\<close>

definition compat :: "'v::linorder node \<Rightarrow> (error + bool) \<times> 'v node" where
  "compat self =
    (if locked self then
       (case fst (group self) of
          None \<Rightarrow> (Inl AttributeError, self)
        | Some i \<Rightarrow> (Inr (\<not> empty (group_at self i)), self))
     else (let (gs, s1) = groups self
           in (Inr (list_ex (\<lambda>g. \<not> empty g) gs), s1)))"

subsection \<open>Methods \<open>unlock\<close>, \<open>merge\<close> and \<open>unapply\<close>\<close>

text \<open>\<open>del self.__dict__['group']\<close> raises \<open>KeyError\<close> when the key is absent.\<close>

definition unlock :: "'v node \<Rightarrow> error + 'v node" where
  "unlock self = (if locked self then Inr (self\<lparr>group_cache := None\<rparr>) else Inl KeyError)"

text \<open>
  \<open>merge\<close> returns the raised error, if any, and the node as the call leaves it: what was
  assigned before a \<open>raise\<close> stays assigned.
\<close>

definition merge :: "'v::linorder node \<Rightarrow> 'v node \<Rightarrow> error option \<times> 'v node" where
  "merge self dep =
    (if is_git (link self) \<and> is_git (link dep)
        \<and> truthy (link_rev (link self)) \<and> truthy (link_rev (link dep))
        \<and> link_rev (link self) \<noteq> link_rev (link dep)
     then (Some (MergeError ''links point to different revisions''), self)
     else if is_git (link self) \<and> is_git (link dep)
        \<and> link_server (link self) \<noteq> link_server (link dep)
     then (Some (MergeError ''links point to different servers''), self)
     else
      (let s1 = (if is_git (link self) \<and> \<not> is_git (link dep)
                    \<and> \<not> truthy (link_rev (link self)) \<and> groups_cache self = None
                 then self\<lparr>repo := repo dep\<rparr> else self);
           s2 = (if \<not> is_git (link s1) \<and> is_git (link dep)
                 then s1\<lparr>link := link dep, repo := repo dep\<rparr> else s1)
       in case constraint_merge (constraint s2) (constraint dep) of
            Inl e \<Rightarrow> (Some e, s2)
          | Inr c \<Rightarrow> (None, snd (actualize_groups True (s2\<lparr>constraint := c\<rparr>)))))"

definition unapply :: "string \<Rightarrow> 'v::linorder node \<Rightarrow> error + 'v node" where
  "unapply name self =
    (let s1 = self\<lparr>constraint := constraint_unapply name (constraint self)\<rparr>;
         s2 = snd (actualize_groups True s1)
     in if locked s2 then unlock s2 else Inr s2)"

subsection \<open>Example repositories and nodes\<close>

text \<open>
  Versions of the examples are lists of numbers in lexicographic order: \<open>[1, 5]\<close> is
  version 1.5. The registry offers four releases of \<open>pkgA\<close>, none with a dependency list
  yet; the lists are fetched per release.
\<close>

definition registry :: "nat list repo" where
  "registry =
    \<lparr>get_releases = (\<lambda>name. if name = ''pkgA''
        then map (\<lambda>v. \<lparr>rname = ''pkgA'', version = v, dependencies = None\<rparr>)
               [[1, 0], [1, 5], [1, 9], [2, 0]]
        else []),
     get_dependencies = (\<lambda>name v.
        if v = [1, 0] then [] else if v = [2, 0] then [''pkgB'', ''pkgC''] else [''pkgB''])\<rparr>"

text \<open>A repository that offers release 2.0 only.\<close>

definition registry2 :: "nat list repo" where
  "registry2 =
    \<lparr>get_releases = (\<lambda>name. [\<lparr>rname = ''pkgA'', version = [2, 0], dependencies = None\<rparr>]),
     get_dependencies = (\<lambda>name v. [])\<rparr>"

text \<open>The repository of a checkout: one release, of version 0, without dependencies.\<close>

definition checkout :: "nat list repo" where
  "checkout =
    \<lparr>get_releases = (\<lambda>name. [\<lparr>rname = name, version = [0], dependencies = Some []\<rparr>]),
     get_dependencies = (\<lambda>name v. [])\<rparr>"

definition example_parse_link :: "string option \<Rightarrow> link option" where
  "example_parse_link url =
    (case url of
       None \<Rightarrow> None
     | Some u \<Rightarrow> Some (GitRepo ''github.com'' None (Some ''requests'')))"

definition example_get_repo :: "link option \<Rightarrow> nat list repo" where
  "example_get_repo l = (if is_git l then checkout else registry)"

text \<open>The node \<open>pkgA\<close> with the range \<open>>=1.0,<2.0\<close> contributed by the root.\<close>

definition pkgA_node :: "nat list node" where
  "pkgA_node =
    \<lparr>raw_name = ''pkgA'',
     constraint = [(''root'', RangeSpecifier [Ge [1, 0], Lt [2, 0]])],
     repo = registry,
     link = None,
     all_releases_cache = None,
     groups_cache = None,
     group_cache = None\<rparr>"

text \<open>A second node for \<open>pkgA\<close>, reached through another parent, with the range \<open>>=1.0\<close>.\<close>

definition pkgA_other :: "nat list node" where
  "pkgA_other = pkgA_node\<lparr>constraint := [(''parent'', RangeSpecifier [Ge [1, 0]])]\<rparr>"

text \<open>The node \<open>pkgA\<close> with the range \<open>==1.0\<close> against the repository that offers 2.0 only.\<close>

definition unsat_node :: "nat list node" where
  "unsat_node =
    \<lparr>raw_name = ''pkgA'',
     constraint = [(''root'', RangeSpecifier [Eq [1, 0]])],
     repo = registry2,
     link = None,
     all_releases_cache = None,
     groups_cache = None,
     group_cache = None\<rparr>"

text \<open>A node for \<open>pkgA\<close> from a version-control source, with the given revision.\<close>

definition git_node :: "string option \<Rightarrow> nat list node" where
  "git_node r =
    \<lparr>raw_name = ''pkgA'',
     constraint = [(''parent'', GitSpecifier)],
     repo = checkout,
     link = Some (GitRepo ''github.com'' r (Some ''pkgA'')),
     all_releases_cache = None,
     groups_cache = None,
     group_cache = None\<rparr>"

text \<open>
  A repository of \<open>pkgD\<close> with two resolved releases whose dependency lists differ only
  in the multiplicity of one entry, and a node for it without any range.
\<close>

definition registry3 :: "nat list repo" where
  "registry3 =
    \<lparr>get_releases = (\<lambda>name.
        [\<lparr>rname = ''pkgD'', version = [1, 0], dependencies = Some [''pkgB'']\<rparr>,
         \<lparr>rname = ''pkgD'', version = [1, 1], dependencies = Some [''pkgB'', ''pkgB'']\<rparr>]),
     get_dependencies = (\<lambda>name v. [])\<rparr>"

definition pkgD_node :: "nat list node" where
  "pkgD_node =
    \<lparr>raw_name = ''pkgD'',
     constraint = [(''root'', RangeSpecifier [])],
     repo = registry3,
     link = None,
     all_releases_cache = None,
     groups_cache = None,
     group_cache = None\<rparr>"

text \<open>Python's \<open>s in t\<close> on strings: \<open>s\<close> occurs in \<open>t\<close>.\<close>

fun occurs_in :: "string \<Rightarrow> string \<Rightarrow> bool" where
  "occurs_in s [] = (s = [])"
| "occurs_in s (c # cs) = (take (length s) (c # cs) = s \<or> occurs_in s cs)"

text \<open>The message of a raised \<open>MergeError\<close>.\<close>

fun error_message :: "error \<Rightarrow> string" where
  "error_message (MergeError m) = m"
| "error_message e = []"

text \<open>
  The invariant of the dictionary built by \<open>groups\<close>, after the releases \<open>xs\<close>: the keys
  are the fingerprints of \<open>xs\<close> in the order of their first occurrence, and the set of a
  key holds exactly the releases of \<open>xs\<close> with that fingerprint.
\<close>

definition buckets_of :: "(string \<times> 'v release list) list \<Rightarrow> 'v release list \<Rightarrow> bool" where
  "buckets_of bs xs \<longleftrightarrow>
     map fst bs = rev (remdups (rev (map fingerprint xs)))
     \<and> (\<forall>key ys. map_of bs key = Some ys \<longrightarrow>
           ys \<noteq> [] \<and> set ys = {r \<in> set xs. fingerprint r = key})"

section \<open>Properties\<close>

subsection \<open>What the properties leave unchanged\<close>

lemma dep_all_releases_fields:
  "link (snd (dep_all_releases self)) = link self"
  "repo (snd (dep_all_releases self)) = repo self"
  "constraint (snd (dep_all_releases self)) = constraint self"
  "group_cache (snd (dep_all_releases self)) = group_cache self"
  "groups_cache (snd (dep_all_releases self)) = groups_cache self"
  "raw_name (snd (dep_all_releases self)) = raw_name self"
  by (simp_all add: dep_all_releases_def Let_def split: option.split)

lemma fetch_releases_deps_fields:
  "link (fetch_releases_deps self) = link self"
  "repo (fetch_releases_deps self) = repo self"
  "constraint (fetch_releases_deps self) = constraint self"
  "group_cache (fetch_releases_deps self) = group_cache self"
  "groups_cache (fetch_releases_deps self) = groups_cache self"
  "raw_name (fetch_releases_deps self) = raw_name self"
  by (simp_all add: fetch_releases_deps_def dep_all_releases_fields split_def Let_def)

lemma groups_fields:
  "link (snd (groups self)) = link self"
  "repo (snd (groups self)) = repo self"
  "constraint (snd (groups self)) = constraint self"
  "group_cache (snd (groups self)) = group_cache self"
  "raw_name (snd (groups self)) = raw_name self"
  by (simp_all add: groups_def dep_all_releases_fields fetch_releases_deps_fields split_def Let_def
      split: option.split)

lemma groups_cached: "groups_cache (snd (groups self)) = Some (fst (groups self))"
  by (simp add: groups_def split_def Let_def split: option.split)

lemma actualize_groups_fields:
  "link (snd (actualize_groups force self)) = link self"
  "repo (snd (actualize_groups force self)) = repo self"
  "constraint (snd (actualize_groups force self)) = constraint self"
  "group_cache (snd (actualize_groups force self)) = group_cache self"
  by (simp_all add: actualize_groups_def groups_fields split_def Let_def)

lemma actualize_groups_forced:
  "groups_cache (snd (actualize_groups True self)) =
     Some (filtrate_groups (constraint self) (fst (groups self)))"
  by (simp add: actualize_groups_def groups_fields split_def Let_def)

subsection \<open>Merging\<close>

text \<open>
  C10. In \<open>merge\<close>, whenever the link of \<open>self\<close> is not a version-control source and the
  link of the other node is one, \<open>self\<close> ends with the other node's link and repository
  handle, whatever the revision of that link and whatever \<open>self\<close> has cached.
\<close>

theorem merge_adopts_git:
  assumes "\<not> is_git (link self)" and "is_git (link dep)"
  shows "link (snd (merge self dep)) = link dep \<and> repo (snd (merge self dep)) = repo dep"
  using assms
  by (simp add: merge_def actualize_groups_fields Let_def split: sum.split)

theorem merge_adopts_git_witness:
  "\<not> is_git (link (snd (group pkgA_node))) \<and> is_git (link (git_node (Some ''abc123'')))
   \<and> locked (snd (group pkgA_node))
   \<and> link (snd (merge (snd (group pkgA_node)) (git_node (Some ''abc123''))))
       = Some (GitRepo ''github.com'' (Some ''abc123'') (Some ''pkgA''))
   \<and> repo (snd (merge (snd (group pkgA_node)) (git_node (Some ''abc123'')))) = checkout"
proof -
  have a: "\<not> is_git (link (snd (group pkgA_node)))" by code_simp
  have b: "is_git (link (git_node (Some ''abc123'')))" by code_simp
  have c: "locked (snd (group pkgA_node))" by code_simp
  have d: "link (git_node (Some ''abc123''))
      = Some (GitRepo ''github.com'' (Some ''abc123'') (Some ''pkgA''))"
    by (simp add: git_node_def)
  have e: "repo (git_node (Some ''abc123'')) = checkout" by (simp add: git_node_def)
  show ?thesis using merge_adopts_git [OF a b] a b c d e by simp
qed

lemma group_fields:
  "link (snd (group self)) = link self"
  "repo (snd (group self)) = repo self"
  "constraint (snd (group self)) = constraint self"
  by (simp_all add: group_def groups_fields split_def Let_def split: option.split)

lemma group_cached: "group_cache (snd (group self)) = Some (fst (group self))"
  by (simp add: group_def split_def Let_def split: option.split)

lemma group_keeps_groups:
  "group_cache self = None \<or> groups_cache self \<noteq> None \<Longrightarrow> groups_cache (snd (group self)) \<noteq> None"
  by (auto simp add: group_def groups_cached split_def Let_def split: option.split)

lemma compat_fields:
  "link (snd (compat self)) = link self"
  "repo (snd (compat self)) = repo self"
  "group_cache (snd (compat self)) = group_cache self"
  by (simp_all add: compat_def groups_fields split_def Let_def split: option.split)

lemma merge_repo_choice:
  assumes "is_git (link self)" and "\<not> truthy (link_rev (link self))" and "\<not> is_git (link dep)"
  shows "repo (snd (merge self dep)) = (if groups_cache self = None then repo dep else repo self)"
  using assms
  by (simp add: merge_def actualize_groups_fields Let_def split: sum.split)

text \<open>
  C4, as amended. In \<open>merge\<close>, when the link of \<open>self\<close> is a version-control source
  without a revision and the link of the other node is not a version-control source, the
  repository handle of \<open>self\<close> is replaced by the other node's exactly when \<open>self\<close> has
  not computed its groups yet (\<open>'groups'\<close> is not in \<open>__dict__\<close>); otherwise it is left
  unchanged. In particular a node that has selected a group by reading \<open>group\<close> keeps its
  repository handle.
\<close>

theorem merge_prefers_registry:
  assumes "is_git (link self)" and "\<not> truthy (link_rev (link self))" and "\<not> is_git (link dep)"
  shows "repo (snd (merge self dep)) = (if groups_cache self = None then repo dep else repo self)
     \<and> (group_cache self = None \<or> groups_cache self \<noteq> None
          \<longrightarrow> locked (snd (group self)) \<and> repo (snd (merge (snd (group self)) dep)) = repo self)"
proof -
  have "repo (snd (merge (snd (group self)) dep)) = repo self"
    if h: "group_cache self = None \<or> groups_cache self \<noteq> None"
    using merge_repo_choice[of "snd (group self)" dep] assms group_keeps_groups[OF h]
    by (simp add: group_fields)
  moreover have "locked (snd (group self))" by (simp add: locked_def group_cached)
  ultimately show ?thesis using merge_repo_choice[OF assms] by blast
qed

lemma checkout_not_registry: "checkout \<noteq> registry"
proof
  assume "checkout = registry"
  then have "get_releases checkout ''x'' = get_releases registry ''x''" by simp
  then show False by (simp add: checkout_def registry_def)
qed

theorem merge_prefers_registry_witness:
  "is_git (link (git_node None)) \<and> \<not> truthy (link_rev (link (git_node None)))
   \<and> \<not> is_git (link pkgA_node) \<and> groups_cache (git_node None) = None
   \<and> repo (snd (merge (git_node None) pkgA_node)) = registry
   \<and> locked (snd (group (git_node None)))
   \<and> repo (snd (merge (snd (group (git_node None))) pkgA_node)) = checkout"
proof -
  have a: "is_git (link (git_node None))" by (simp add: git_node_def)
  have b: "\<not> truthy (link_rev (link (git_node None)))" by (simp add: git_node_def)
  have c: "\<not> is_git (link pkgA_node)" by (simp add: pkgA_node_def)
  have d: "groups_cache (git_node None) = None" by (simp add: git_node_def)
  have e: "group_cache (git_node None) = None" by (simp add: git_node_def)
  have f: "repo pkgA_node = registry" by (simp add: pkgA_node_def)
  have g: "repo (git_node None) = checkout" by (simp add: git_node_def)
  show ?thesis using merge_prefers_registry [OF a b c] a b c d e f g by simp
qed

text \<open>
  The claim C4 as stated fails on a node that has computed its groups (here by reading
  \<open>compat\<close>) without selecting one: the node is not locked, and still \<open>merge\<close> keeps its
  repository handle.
\<close>

theorem merge_keeps_checkout_after_groups:
  "is_git (link (snd (compat (git_node None))))
   \<and> \<not> truthy (link_rev (link (snd (compat (git_node None)))))
   \<and> \<not> is_git (link pkgA_node)
   \<and> \<not> locked (snd (compat (git_node None)))
   \<and> repo (snd (merge (snd (compat (git_node None))) pkgA_node)) \<noteq> repo pkgA_node"
proof -
  have g: "groups_cache (snd (compat (git_node None))) \<noteq> None" by code_simp
  have r0: "repo (snd (compat (git_node None))) = checkout"
    by (simp add: compat_fields git_node_def)
  have p: "repo pkgA_node = registry" by (simp add: pkgA_node_def)
  have a: "is_git (link (snd (compat (git_node None))))" by code_simp
  have b: "\<not> truthy (link_rev (link (snd (compat (git_node None)))))" by code_simp
  have c: "\<not> is_git (link pkgA_node)" by code_simp
  have d: "\<not> locked (snd (compat (git_node None)))" by code_simp
  have r: "repo (snd (merge (snd (compat (git_node None))) pkgA_node)) = checkout"
    using merge_repo_choice [OF a b c] g r0 by simp
  show ?thesis using checkout_not_registry r p a b c d by simp
qed

lemma constraint_merge_error:
  "constraint_merge c d = Inl e \<Longrightarrow> e = MergeError ''conflicting constraints''"
  by (induction c d rule: constraint_merge.induct) (auto split: option.splits if_splits)

text \<open>
  C7, as amended. For two nodes whose links are both version-control sources: when both
  carry a revision and the revisions differ, \<open>merge\<close> raises \<open>MergeError\<close> with the fixed
  message \<open>links point to different revisions\<close> and leaves \<open>self\<close> unchanged; when the
  revisions are equal, \<open>merge\<close> does not raise this error.
\<close>

theorem merge_revision_conflict:
  assumes "is_git (link self)" and "is_git (link dep)"
  shows "(truthy (link_rev (link self)) \<and> truthy (link_rev (link dep))
            \<and> link_rev (link self) \<noteq> link_rev (link dep)
          \<longrightarrow> merge self dep = (Some (MergeError ''links point to different revisions''), self))
       \<and> (link_rev (link self) = link_rev (link dep)
          \<longrightarrow> fst (merge self dep) \<noteq> Some (MergeError ''links point to different revisions''))"
  using assms
  by (auto simp add: merge_def Let_def split: sum.split dest!: constraint_merge_error)

theorem merge_revision_conflict_witness:
  "is_git (link (git_node (Some ''abc123''))) \<and> is_git (link (git_node (Some ''def456'')))
   \<and> merge (git_node (Some ''abc123'')) (git_node (Some ''def456''))
       = (Some (MergeError ''links point to different revisions''), git_node (Some ''abc123''))
   \<and> fst (merge (git_node (Some ''abc123'')) (git_node (Some ''abc123'')))
       \<noteq> Some (MergeError ''links point to different revisions'')"
proof -
  have a: "is_git (link (git_node r))" for r by (simp add: git_node_def)
  have r: "link_rev (link (git_node r)) = r" for r by (simp add: git_node_def)
  show ?thesis
    using merge_revision_conflict [OF a a, of "Some ''abc123''" "Some ''def456''"]
      merge_revision_conflict [OF a a, of "Some ''abc123''" "Some ''abc123''"] a
    by (simp add: r)
qed

text \<open>
  The claim C7 as stated fails in its second half: for the revisions \<open>abc123\<close> and
  \<open>def456\<close> on one server, the message of the raised error names neither of them.
\<close>

theorem merge_error_names_no_revision:
  "fst (merge (git_node (Some ''abc123'')) (git_node (Some ''def456'')))
     = Some (MergeError ''links point to different revisions'')
   \<and> \<not> occurs_in ''abc123''
        (error_message (the (fst (merge (git_node (Some ''abc123'')) (git_node (Some ''def456''))))))
   \<and> \<not> occurs_in ''def456''
        (error_message (the (fst (merge (git_node (Some ''abc123'')) (git_node (Some ''def456''))))))"
  by code_simp

text \<open>
  C1, as amended. A \<open>merge\<close> that raises no error leaves the cached selection as it was:
  a locked node stays locked, a later read of \<open>group\<close> returns the selection cached
  before the merge without scanning the groups again, and cached groups are kept, each
  with its \<open>releases\<close> filtered by the merged constraint.
\<close>

theorem merge_keeps_lock:
  assumes "fst (merge self dep) = None"
  shows "group_cache (snd (merge self dep)) = group_cache self
     \<and> locked (snd (merge self dep)) = locked self
     \<and> (locked self \<longrightarrow> group (snd (merge self dep)) = (the (group_cache self), snd (merge self dep)))
     \<and> (\<forall>gs. groups_cache self = Some gs \<longrightarrow>
          groups_cache (snd (merge self dep))
            = Some (filtrate_groups (constraint (snd (merge self dep))) gs))"
proof -
  have gc: "group_cache (snd (merge self dep)) = group_cache self"
    using assms
    by (auto simp add: merge_def actualize_groups_fields Let_def split: sum.splits if_splits)
  have l: "locked (snd (merge self dep)) = locked self" using gc by (simp add: locked_def)
  have g: "group (snd (merge self dep)) = (the (group_cache self), snd (merge self dep))"
    if "locked self"
    using that gc by (auto simp add: group_def locked_def)
  have gs: "groups_cache (snd (merge self dep))
            = Some (filtrate_groups (constraint (snd (merge self dep))) gs)"
    if "groups_cache self = Some gs" for gs
    using assms that
    by (auto simp add: merge_def actualize_groups_fields actualize_groups_forced groups_def Let_def
        split: sum.splits if_splits)
  show ?thesis using gc l g gs by blast
qed

theorem merge_keeps_lock_witness:
  "fst (merge (snd (group pkgA_node)) pkgA_other) = None
   \<and> group_cache (snd (group pkgA_node)) = Some (Some 1)
   \<and> group_cache (snd (merge (snd (group pkgA_node)) pkgA_other)) = Some (Some 1)
   \<and> fst (group (snd (merge (snd (group pkgA_node)) pkgA_other))) = Some 1"
proof -
  have a: "fst (merge (snd (group pkgA_node)) pkgA_other) = None" by code_simp
  have b: "group_cache (snd (group pkgA_node)) = Some (Some 1)" by code_simp
  show ?thesis using merge_keeps_lock [OF a] a b by (simp add: locked_def)
qed

text \<open>
  The claim C1 as stated fails: the locked node \<open>pkgA\<close> merged with a second node for
  \<open>pkgA\<close> raises no error and is locked afterwards.
\<close>

theorem merge_leaves_locked:
  "locked (snd (group pkgA_node)) \<and> fst (merge (snd (group pkgA_node)) pkgA_other) = None
   \<and> locked (snd (merge (snd (group pkgA_node)) pkgA_other))"
  by code_simp

subsection \<open>Selection\<close>






text \<open>
  C6. The node with the range \<open>==1.0\<close> on a repository that offers 2.0 only has no
  viable group. Reading \<open>group\<close> returns \<open>None\<close>, and reading \<open>compat\<close> after that raises
  \<open>AttributeError\<close>; in the other order \<open>compat\<close> is false and \<open>group\<close> is \<open>None\<close>.
\<close>

theorem compat_after_group_raises:
  "fst (group unsat_node) = None
   \<and> fst (compat (snd (group unsat_node))) = Inl AttributeError
   \<and> fst (compat unsat_node) = Inr False
   \<and> fst (group (snd (compat unsat_node))) = None"
  by code_simp

subsection \<open>Construction\<close>

text \<open>
  C9. A node constructed by \<open>from_params\<close> has the name of the parsed link as its
  \<open>raw_name\<close> when that name is not empty and the supplied \<open>raw_name\<close> is seven characters
  of \<open>a\<close> to \<open>f\<close> and \<open>0\<close> to \<open>9\<close>, and the supplied \<open>raw_name\<close> in every other case.
\<close>

theorem from_params_raw_name:
  assumes "from_params parse_link get_repo rn cp url rp = Inr n"
  shows "raw_name n =
     (if truthy (link_name_of (parse_link url)) \<and> length rn = 7 \<and> set rn \<subseteq> set ''abcdef0123456789''
      then the (link_name_of (parse_link url)) else rn)"
proof -
  have h: "rex_hash_fullmatch rn \<longleftrightarrow> length rn = 7 \<and> set rn \<subseteq> set ''abcdef0123456789''"
    by (simp only: rex_hash_fullmatch_def hex_char_def[abs_def] list_all_iff subset_eq)
  have t: "parse_link url = None \<Longrightarrow> \<not> truthy (link_name_of (parse_link url))" by simp
  have "raw_name n = (if parse_link url \<noteq> None \<and> truthy (link_name_of (parse_link url))
        \<and> rex_hash_fullmatch rn then the (link_name_of (parse_link url)) else rn)"
    using assms unfolding from_params_def Let_def
    by (cases cp; cases "is_git (parse_link url)") auto
  then show ?thesis using t unfolding h by auto
qed

theorem from_params_raw_name_witness:
  "(\<exists>n. from_params example_parse_link example_get_repo ''a1b2c3d'' (FromSource ''root'' [])
          (Some ''git+https://github.com/psf/requests'') None = Inr n
        \<and> raw_name n = ''requests'')
   \<and> (\<exists>n. from_params example_parse_link example_get_repo ''a1b2c3'' (FromSource ''root'' [])
          (Some ''git+https://github.com/psf/requests'') None = Inr n
        \<and> raw_name n = ''a1b2c3'')"
proof -
  obtain n where n: "from_params example_parse_link example_get_repo ''a1b2c3d''
      (FromSource ''root'' []) (Some ''git+https://github.com/psf/requests'') None = Inr n"
    by (simp add: from_params_def example_parse_link_def Let_def)
  obtain m where m: "from_params example_parse_link example_get_repo ''a1b2c3''
      (FromSource ''root'' []) (Some ''git+https://github.com/psf/requests'') None = Inr m"
    by (simp add: from_params_def example_parse_link_def Let_def)
  have "raw_name n = ''requests''"
    using from_params_raw_name [OF n] by (simp add: example_parse_link_def)
  moreover have "raw_name m = ''a1b2c3''"
    using from_params_raw_name [OF m] by (simp add: example_parse_link_def)
  ultimately show ?thesis using n m by blast
qed


subsection \<open>Grouping\<close>

lemma add_release_keys:
  "map fst (add_release key r bs) =
     (if key \<in> set (map fst bs) then map fst bs else map fst bs @ [key])"
  by (induction bs) force+

lemma add_release_map_of:
  "map_of (add_release key r bs) =
     (map_of bs)(key \<mapsto> List.insert r (case map_of bs key of None \<Rightarrow> [] | Some ys \<Rightarrow> ys))"
  by (induction bs) (auto simp add: fun_eq_iff)

lemma buckets_of_empty: "buckets_of [] []"
  by (simp add: buckets_of_def)

lemma buckets_of_keys: "buckets_of bs xs \<Longrightarrow> set (map fst bs) = fingerprint ` set xs"
  by (simp add: buckets_of_def)

lemma buckets_of_step:
  assumes "buckets_of bs xs"
  shows "buckets_of (add_release (fingerprint r) r bs) (xs @ [r])"
proof -
  have keys: "set (map fst bs) = fingerprint ` set xs" using assms by (rule buckets_of_keys)
  have k: "map fst bs = rev (remdups (rev (map fingerprint xs)))"
    using assms by (simp add: buckets_of_def)
  have m: "\<And>key ys. map_of bs key = Some ys \<Longrightarrow>
      ys \<noteq> [] \<and> set ys = {r \<in> set xs. fingerprint r = key}"
    using assms by (simp add: buckets_of_def)
  have none: "map_of bs (fingerprint r) = None \<Longrightarrow> {x \<in> set xs. fingerprint x = fingerprint r} = {}"
  proof -
    assume "map_of bs (fingerprint r) = None"
    then have "fingerprint r \<notin> fst ` set bs" by (simp add: map_of_eq_None_iff)
    then have "fingerprint r \<notin> fingerprint ` set xs" using keys by simp
    then have "\<And>x. x \<in> set xs \<Longrightarrow> fingerprint x \<noteq> fingerprint r" by (metis imageI)
    then show ?thesis by blast
  qed
  have 1: "map fst (add_release (fingerprint r) r bs)
      = rev (remdups (rev (map fingerprint (xs @ [r]))))"
    using keys k by (simp add: add_release_keys)
  have 2: "ys \<noteq> [] \<and> set ys = {x \<in> set (xs @ [r]). fingerprint x = key}"
    if h: "map_of (add_release (fingerprint r) r bs) key = Some ys" for key ys
  proof (cases "key = fingerprint r")
    case True
    then have ys: "ys = List.insert r (case map_of bs key of None \<Rightarrow> [] | Some zs \<Rightarrow> zs)"
      using h by (simp add: add_release_map_of)
    show ?thesis
    proof (cases "map_of bs key")
      case None
      then show ?thesis using ys True none by auto
    next
      case (Some zs)
      have "List.insert r zs \<noteq> []" by (auto simp add: List.insert_def)
      then show ?thesis using ys True m[OF Some] Some by auto
    qed
  next
    case False
    then have "map_of bs key = Some ys" using h by (simp add: add_release_map_of)
    from m[OF this] show ?thesis using False by auto
  qed
  show ?thesis unfolding buckets_of_def using 1 2 by blast
qed

lemma buckets_of_foldl:
  "buckets_of bs xs \<Longrightarrow>
   buckets_of (foldl (\<lambda>bs r. add_release (fingerprint r) r bs) bs ys) (xs @ ys)"
proof (induction ys arbitrary: bs xs)
  case Nil
  then show ?case by simp
next
  case (Cons y ys)
  from Cons.IH[OF buckets_of_step[OF Cons.prems, of y]] show ?case by simp
qed

lemma group_by_dependencies_buckets: "buckets_of (group_by_dependencies rs) rs"
  using buckets_of_foldl[OF buckets_of_empty, of rs] by (simp add: group_by_dependencies_def)

lemma buckets_of_distinct: "buckets_of bs xs \<Longrightarrow> distinct (map fst bs)"
  by (simp add: buckets_of_def)

lemma buckets_of_member:
  assumes "buckets_of bs xs" and "ys \<in> set (map snd bs)"
  shows "ys \<noteq> [] \<and> (\<exists>key. set ys = {r \<in> set xs. fingerprint r = key})"
proof -
  from assms(2) obtain key where "(key, ys) \<in> set bs" by auto
  then have "map_of bs key = Some ys" using buckets_of_distinct[OF assms(1)] by simp
  then show ?thesis using assms(1) unfolding buckets_of_def by blast
qed

lemma buckets_of_same:
  assumes "buckets_of bs xs" and "r1 \<in> set xs" and "r2 \<in> set xs"
  shows "(\<exists>ys \<in> set (map snd bs). r1 \<in> set ys \<and> r2 \<in> set ys) \<longleftrightarrow> fingerprint r1 = fingerprint r2"
proof
  assume "\<exists>ys \<in> set (map snd bs). r1 \<in> set ys \<and> r2 \<in> set ys"
  then obtain ys where ys: "ys \<in> set (map snd bs)" "r1 \<in> set ys" "r2 \<in> set ys" by blast
  from buckets_of_member[OF assms(1) ys(1)] obtain key where
    "set ys = {r \<in> set xs. fingerprint r = key}" by blast
  then show "fingerprint r1 = fingerprint r2" using ys by auto
next
  assume eq: "fingerprint r1 = fingerprint r2"
  have "fingerprint r1 \<in> set (map fst bs)"
    using buckets_of_keys[OF assms(1)] assms(2) by blast
  then obtain ys where in_bs: "(fingerprint r1, ys) \<in> set bs" by auto
  then have "map_of bs (fingerprint r1) = Some ys" using buckets_of_distinct[OF assms(1)] by simp
  then have "set ys = {r \<in> set xs. fingerprint r = fingerprint r1}"
    using assms(1) unfolding buckets_of_def by blast
  then have "r1 \<in> set ys \<and> r2 \<in> set ys" using assms eq by auto
  moreover have "ys \<in> set (map snd bs)" using in_bs by force
  ultimately show "\<exists>ys \<in> set (map snd bs). r1 \<in> set ys \<and> r2 \<in> set ys" by blast
qed

lemma make_groups_numbers: "map number (make_groups rs) = [0..<length (make_groups rs)]"
  by (simp add: make_groups_def Group_def comp_def map_fst_enumerate[unfolded comp_def] sort_groups_def)

lemma make_groups_all_releases:
  "map all_releases (make_groups rs) = sort_groups (map snd (group_by_dependencies rs))"
  by (simp add: make_groups_def Group_def comp_def map_snd_enumerate[unfolded comp_def])

lemma sort_groups_set: "set (sort_groups bs) = set bs"
  by (simp add: sort_groups_def)

lemma sort_groups_sorted: "sorted (rev (map latest (sort_groups bs)))"
  by (simp add: sort_groups_def rev_map[symmetric])

lemma sort_groups_stable:
  "filter (\<lambda>b. latest b = k) (sort_groups bs) = filter (\<lambda>b. latest b = k) bs"
  by (simp add: sort_groups_def rev_filter[symmetric] sort_key_stable)

lemma latest_Max: "latest (r # rs) = Max (set (map version (r # rs)))"
proof -
  have "fold (\<lambda>x m. max (version x) m) rs (version r) = fold max (map version rs) (version r)"
    by (simp add: fold_map comp_def)
  then show ?thesis using Max.set_eq_fold[of "version r" "map version rs"] by simp
qed

lemma latest_greatest:
  assumes "ys \<noteq> []"
  shows "latest ys \<in> version ` set ys \<and> (\<forall>r \<in> set ys. version r \<le> latest ys)"
proof -
  from assms obtain r rs where ys: "ys = r # rs" by (cases ys) auto
  have m: "latest ys = Max (version ` set ys)" using latest_Max[of r rs] ys by simp
  have fin: "finite (version ` set ys)" and ne: "version ` set ys \<noteq> {}" using ys by auto
  show ?thesis unfolding m using Max_in[OF fin ne] Max_ge[OF fin] by blast
qed

lemma filtrate_groups_maps:
  "map number (filtrate_groups c gs) = map number gs"
  "map all_releases (filtrate_groups c gs) = map all_releases gs"
  "map releases (filtrate_groups c gs) = map (\<lambda>g. constraint_filter c (all_releases g)) gs"
  by (simp_all add: filtrate_groups_def comp_def)

lemma actualize_given_maps:
  "map number (snd (actualize_given s gs)) = map number gs"
  "map all_releases (snd (actualize_given s gs)) = map all_releases gs"
  "map releases (snd (actualize_given s gs)) = map (\<lambda>g. constraint_filter (constraint s) (all_releases g)) gs"
  by (simp_all add: actualize_given_def filtrate_groups_maps)

lemma groups_uncached:
  assumes "groups_cache self = None"
  shows "\<exists>rs. all_releases_cache (snd (groups self)) = Some rs
     \<and> rs = map (fetch_release (repo self)) (fst (dep_all_releases self))
     \<and> map number (fst (groups self)) = map number (make_groups rs)
     \<and> map all_releases (fst (groups self)) = map all_releases (make_groups rs)
     \<and> map releases (fst (groups self))
         = map (\<lambda>g. constraint_filter (constraint self) (all_releases g)) (make_groups rs)"
  using assms
  by (simp add: groups_def fetch_releases_deps_def dep_all_releases_def split_def Let_def
      actualize_given_maps split: option.split)

lemma fetch_release_resolved: "dependencies (fetch_release rp r) \<noteq> None"
  by (simp add: fetch_release_def split: option.split)

lemma split_at_separator:
  "c \<notin> set x \<Longrightarrow> c \<notin> set y \<Longrightarrow> x @ c # a = y @ c # b \<Longrightarrow> x = y \<and> a = b"
proof (induction x arbitrary: y)
  case Nil
  then show ?case by (cases y) auto
next
  case (Cons h x)
  then show ?case by (cases y) auto
qed

lemma list_shape:
  obtains "ys = []" | y where "ys = [y]" | y z zs where "ys = y # z # zs"
  by (cases ys; cases "tl ys") auto

lemma join_inject:
  assumes "\<forall>s \<in> set xs. s \<noteq> [] \<and> c \<notin> set s" and "\<forall>s \<in> set ys. s \<noteq> [] \<and> c \<notin> set s"
    and "join [c] xs = join [c] ys"
  shows "xs = ys"
  using assms
proof (induction xs arbitrary: ys rule: induct_list012)
  case 1
  then show ?case by (cases ys rule: list_shape) auto
next
  case (2 x)
  show ?case
  proof (cases ys rule: list_shape)
    case 1
    then show ?thesis using "2.prems" by auto
  next
    case (2 y)
    then show ?thesis using "2.prems" by auto
  next
    case (3 y z zs)
    then have "x = y @ c # join [c] (z # zs)" using "2.prems" by simp
    then have "c \<in> set x" by simp
    then show ?thesis using "2.prems" by simp
  qed
next
  case (3 x y ys')
  show ?case
  proof (cases ys rule: list_shape)
    case 1
    then show ?thesis using "3.prems" by auto
  next
    case (2 z)
    then have "z = x @ c # join [c] (y # ys')" using "3.prems" by simp
    then have "c \<in> set z" by simp
    then show ?thesis using "3.prems" 2 by simp
  next
    case (3 z z' zs)
    then have e: "x @ c # join [c] (y # ys') = z @ c # join [c] (z' # zs)"
      using "3.prems" by simp
    have "c \<notin> set x" "c \<notin> set z" using "3.prems" 3 by auto
    from split_at_separator[OF this e] have xz: "x = z" and j: "join [c] (y # ys') = join [c] (z' # zs)"
      by auto
    have "y # ys' = z' # zs" using "3.IH"(2)[of "z' # zs"] "3.prems" 3 j by auto
    then show ?thesis using xz 3 by simp
  qed
qed


lemma fetched_resolved:
  assumes "groups_cache self = None" and "all_releases_cache (snd (groups self)) = Some rs"
    and "r \<in> set rs"
  shows "dependencies r \<noteq> None"
proof -
  from groups_uncached[OF assms(1)] assms(2)
  have "rs = map (fetch_release (repo self)) (fst (dep_all_releases self))" by auto
  then show ?thesis using assms(3) fetch_release_resolved by auto
qed

lemma groups_partition:
  assumes "groups_cache self = None" and "all_releases_cache (snd (groups self)) = Some rs"
  shows "set (map all_releases (fst (groups self))) = set (map snd (group_by_dependencies rs))"
proof -
  from groups_uncached[OF assms(1)] assms(2)
  have "map all_releases (fst (groups self)) = map all_releases (make_groups rs)" by auto
  then show ?thesis by (simp only: make_groups_all_releases sort_groups_set)
qed

lemma fingerprint_sorted_eq:
  assumes "dependencies r1 = Some d1" and "dependencies r2 = Some d2"
    and "\<forall>s \<in> set d1 \<union> set d2. s \<noteq> [] \<and> CHR ''|'' \<notin> set s"
  shows "fingerprint r1 = fingerprint r2 \<longleftrightarrow> mset d1 = mset d2"
proof
  assume "fingerprint r1 = fingerprint r2"
  then have j: "join ''|'' (sort d1) = join ''|'' (sort d2)"
    using assms(1,2) by (simp add: fingerprint_def)
  have "sort d1 = sort d2"
    by (rule join_inject[OF _ _ j]) (use assms(3) in auto)
  then have "mset (sort d1) = mset (sort d2)" by simp
  then show "mset d1 = mset d2" by simp
next
  assume "mset d1 = mset d2"
  then have "sort d1 = sort d2" by (metis properties_for_sort sorted_sort mset_sort)
  then show "fingerprint r1 = fingerprint r2" using assms(1,2) by (simp add: fingerprint_def)
qed

text \<open>
  C3, as amended. When a node computes its groups, two of its releases are placed in the
  same group if and only if the strings obtained by sorting the string forms of their
  dependency lists and joining them with \<open>|\<close> are equal. Nothing is deduplicated: when no
  string form is empty or contains \<open>|\<close>, the two releases share a group if and only if
  their dependency lists are equal as multisets, so the order of the entries does not
  matter and their multiplicity does.
\<close>

theorem groups_by_fingerprint:
  assumes "groups_cache self = None" and "all_releases_cache (snd (groups self)) = Some rs"
    and "r1 \<in> set rs" and "r2 \<in> set rs"
  shows "((\<exists>g \<in> set (fst (groups self)). r1 \<in> set (all_releases g) \<and> r2 \<in> set (all_releases g))
          \<longleftrightarrow> join ''|'' (sort (the (dependencies r1))) = join ''|'' (sort (the (dependencies r2))))
     \<and> ((\<forall>s \<in> set (the (dependencies r1)) \<union> set (the (dependencies r2)).
            s \<noteq> [] \<and> CHR ''|'' \<notin> set s)
        \<longrightarrow> ((\<exists>g \<in> set (fst (groups self)). r1 \<in> set (all_releases g) \<and> r2 \<in> set (all_releases g))
             \<longleftrightarrow> mset (the (dependencies r1)) = mset (the (dependencies r2))))"
proof -
  let ?same = "\<exists>g \<in> set (fst (groups self)). r1 \<in> set (all_releases g) \<and> r2 \<in> set (all_releases g)"
  have "?same \<longleftrightarrow> (\<exists>ys \<in> set (map all_releases (fst (groups self))). r1 \<in> set ys \<and> r2 \<in> set ys)"
    by auto
  also have "\<dots> \<longleftrightarrow> (\<exists>ys \<in> set (map snd (group_by_dependencies rs)). r1 \<in> set ys \<and> r2 \<in> set ys)"
    by (simp only: groups_partition[OF assms(1,2)])
  also have "\<dots> \<longleftrightarrow> fingerprint r1 = fingerprint r2"
    by (rule buckets_of_same[OF group_by_dependencies_buckets assms(3,4)])
  finally have main: "?same \<longleftrightarrow> fingerprint r1 = fingerprint r2" .
  obtain d1 d2 where d: "dependencies r1 = Some d1" "dependencies r2 = Some d2"
    using fetched_resolved[OF assms(1,2)] assms(3,4) by blast
  have 1: "?same \<longleftrightarrow> join ''|'' (sort (the (dependencies r1))) = join ''|'' (sort (the (dependencies r2)))"
    using main by (simp add: fingerprint_def)
  have 2: "?same \<longleftrightarrow> mset (the (dependencies r1)) = mset (the (dependencies r2))"
    if "\<forall>s \<in> set (the (dependencies r1)) \<union> set (the (dependencies r2)). s \<noteq> [] \<and> CHR ''|'' \<notin> set s"
    using main fingerprint_sorted_eq[OF d] that d by simp
  show ?thesis using 1 2 by blast
qed


theorem groups_by_fingerprint_witness:
  "groups_cache pkgA_node = None
   \<and> all_releases_cache (snd (groups pkgA_node))
       = Some [\<lparr>rname = ''pkgA'', version = [1, 0], dependencies = Some []\<rparr>,
               \<lparr>rname = ''pkgA'', version = [1, 5], dependencies = Some [''pkgB'']\<rparr>,
               \<lparr>rname = ''pkgA'', version = [1, 9], dependencies = Some [''pkgB'']\<rparr>,
               \<lparr>rname = ''pkgA'', version = [2, 0], dependencies = Some [''pkgB'', ''pkgC'']\<rparr>]
   \<and> (\<exists>g \<in> set (fst (groups pkgA_node)).
         \<lparr>rname = ''pkgA'', version = [1, 5], dependencies = Some [''pkgB'']\<rparr> \<in> set (all_releases g)
         \<and> \<lparr>rname = ''pkgA'', version = [1, 9], dependencies = Some [''pkgB'']\<rparr> \<in> set (all_releases g))
   \<and> \<not> (\<exists>g \<in> set (fst (groups pkgA_node)).
         \<lparr>rname = ''pkgA'', version = [1, 0], dependencies = Some []\<rparr> \<in> set (all_releases g)
         \<and> \<lparr>rname = ''pkgA'', version = [1, 9], dependencies = Some [''pkgB'']\<rparr> \<in> set (all_releases g))"
proof -
  let ?rs = "[\<lparr>rname = ''pkgA'', version = [1, 0], dependencies = Some []\<rparr>,
               \<lparr>rname = ''pkgA'', version = [1, 5], dependencies = Some [''pkgB'']\<rparr>,
               \<lparr>rname = ''pkgA'', version = [1, 9], dependencies = Some [''pkgB'']\<rparr>,
               \<lparr>rname = ''pkgA'', version = [2::nat, 0], dependencies = Some [''pkgB'', ''pkgC'']\<rparr>]"
  have a: "groups_cache pkgA_node = None" by (simp add: pkgA_node_def)
  have b: "all_releases_cache (snd (groups pkgA_node)) = Some ?rs" by code_simp
  have m0: "\<lparr>rname = ''pkgA'', version = [1::nat, 0], dependencies = Some []\<rparr> \<in> set ?rs" by simp
  have m5: "\<lparr>rname = ''pkgA'', version = [1::nat, 5], dependencies = Some [''pkgB'']\<rparr> \<in> set ?rs" by simp
  have m9: "\<lparr>rname = ''pkgA'', version = [1::nat, 9], dependencies = Some [''pkgB'']\<rparr> \<in> set ?rs" by simp
  show ?thesis
    using groups_by_fingerprint [OF a b m5 m9] groups_by_fingerprint [OF a b m0 m9] a b
    by simp
qed

text \<open>
  The claim C3 as stated fails: the two releases of \<open>pkgD\<close> have dependency lists that are
  equal after sorting and deduplicating, and no group holds both.
\<close>

theorem duplicate_dependency_splits:
  "all_releases_cache (snd (groups pkgD_node))
     = Some [\<lparr>rname = ''pkgD'', version = [1, 0], dependencies = Some [''pkgB'']\<rparr>,
             \<lparr>rname = ''pkgD'', version = [1, 1], dependencies = Some [''pkgB'', ''pkgB'']\<rparr>]
   \<and> remdups (sort [''pkgB'']) = remdups (sort [''pkgB'', ''pkgB''])
   \<and> \<not> list_ex (\<lambda>g.
          \<lparr>rname = ''pkgD'', version = [1, 0], dependencies = Some [''pkgB'']\<rparr> \<in> set (all_releases g)
          \<and> \<lparr>rname = ''pkgD'', version = [1, 1], dependencies = Some [''pkgB'', ''pkgB'']\<rparr>
              \<in> set (all_releases g))
        (fst (groups pkgD_node))"
  by code_simp

text \<open>
  C8. The groups a node computes are numbered 0, 1, 2, ... along the tuple, and the tuple
  is ordered by the latest release of each group, descending. Numbers and partition are a
  function of the fetched releases alone (\<open>make_groups\<close>); groups with equal latest
  releases keep the order of the dictionary, which is the order in which their
  fingerprints first occur in the list the repository provided.
\<close>

theorem groups_ordered:
  assumes "groups_cache self = None" and "all_releases_cache (snd (groups self)) = Some rs"
  shows "map number (fst (groups self)) = [0..<length (fst (groups self))]
     \<and> sorted (rev (map (\<lambda>g. latest (all_releases g)) (fst (groups self))))
     \<and> (\<forall>g \<in> set (fst (groups self)).
           latest (all_releases g) \<in> version ` set (all_releases g)
           \<and> (\<forall>r \<in> set (all_releases g). version r \<le> latest (all_releases g)))
     \<and> map (\<lambda>g. (number g, all_releases g)) (fst (groups self))
         = map (\<lambda>g. (number g, all_releases g)) (make_groups rs)
     \<and> (\<forall>k. filter (\<lambda>b. latest b = k) (map all_releases (fst (groups self)))
             = filter (\<lambda>b. latest b = k) (map snd (group_by_dependencies rs)))
     \<and> map fst (group_by_dependencies rs) = rev (remdups (rev (map fingerprint rs)))"
proof -
  from groups_uncached[OF assms(1)] assms(2)
  have n: "map number (fst (groups self)) = map number (make_groups rs)"
    and a: "map all_releases (fst (groups self)) = map all_releases (make_groups rs)"
    by auto
  have len: "length (fst (groups self)) = length (make_groups rs)"
    using n by (metis length_map)
  have 1: "map number (fst (groups self)) = [0..<length (fst (groups self))]"
    using n len make_groups_numbers by metis
  have l: "map (\<lambda>g. latest (all_releases g)) gs = map latest (map all_releases gs)" for gs :: "'a group list"
    by simp
  have 2: "sorted (rev (map (\<lambda>g. latest (all_releases g)) (fst (groups self))))"
    unfolding l a make_groups_all_releases by (rule sort_groups_sorted)
  have 3: "latest (all_releases g) \<in> version ` set (all_releases g)
           \<and> (\<forall>r \<in> set (all_releases g). version r \<le> latest (all_releases g))"
    if "g \<in> set (fst (groups self))" for g
  proof -
    have "all_releases g \<in> set (map all_releases (fst (groups self)))" using that by simp
    then have "all_releases g \<in> set (map snd (group_by_dependencies rs))"
      by (simp only: groups_partition[OF assms])
    then have "all_releases g \<noteq> []"
      using buckets_of_member[OF group_by_dependencies_buckets] by blast
    then show ?thesis by (rule latest_greatest)
  qed
  have z: "map (\<lambda>g. (number g, all_releases g)) gs = zip (map number gs) (map all_releases gs)"
    for gs :: "'a group list"
    by (induction gs) auto
  have 4: "map (\<lambda>g. (number g, all_releases g)) (fst (groups self))
         = map (\<lambda>g. (number g, all_releases g)) (make_groups rs)"
    unfolding z n a ..
  have 5: "filter (\<lambda>b. latest b = k) (map all_releases (fst (groups self)))
             = filter (\<lambda>b. latest b = k) (map snd (group_by_dependencies rs))" for k
    unfolding a make_groups_all_releases by (rule sort_groups_stable)
  have 6: "map fst (group_by_dependencies rs) = rev (remdups (rev (map fingerprint rs)))"
    using group_by_dependencies_buckets[of rs] by (simp add: buckets_of_def)
  show ?thesis using 1 2 3 4 5 6 by blast
qed

theorem groups_ordered_witness:
  "groups_cache pkgA_node = None
   \<and> map number (fst (groups pkgA_node)) = [0, 1, 2]
   \<and> map (\<lambda>g. latest (all_releases g)) (fst (groups pkgA_node)) = [[2, 0], [1, 9], [1, 0]]
   \<and> sorted (rev (map (\<lambda>g. latest (all_releases g)) (fst (groups pkgA_node))))"
proof -
  let ?rs = "[\<lparr>rname = ''pkgA'', version = [1, 0], dependencies = Some []\<rparr>,
               \<lparr>rname = ''pkgA'', version = [1, 5], dependencies = Some [''pkgB'']\<rparr>,
               \<lparr>rname = ''pkgA'', version = [1, 9], dependencies = Some [''pkgB'']\<rparr>,
               \<lparr>rname = ''pkgA'', version = [2::nat, 0], dependencies = Some [''pkgB'', ''pkgC'']\<rparr>]"
  have a: "groups_cache pkgA_node = None" by (simp add: pkgA_node_def)
  have b: "all_releases_cache (snd (groups pkgA_node)) = Some ?rs" by code_simp
  have c: "length (fst (groups pkgA_node)) = 3" by code_simp
  have d: "map (\<lambda>g. latest (all_releases g)) (fst (groups pkgA_node)) = [[2, 0], [1, 9], [1, 0]]"
    by code_simp
  have e: "[0..<3] = [0, 1, 2]" by code_simp
  show ?thesis using groups_ordered [OF a b] a c d e by simp
qed

text \<open>
  C2, as amended. The node built by \<open>from_params\<close> for \<open>pkgA\<close> with the range
  \<open>>=1.0,<2.0\<close> on the registry with the releases 1.0, 1.5, 1.9 and 2.0 computes three
  groups: number 0 with release 2.0 (fingerprint \<open>pkgB|pkgC\<close>), whose filtered releases
  are empty, number 1 with the releases 1.5 and 1.9 (fingerprint \<open>pkgB\<close>) and number 2
  with release 1.0 (empty fingerprint). Reading \<open>group\<close> selects number 1.
\<close>

theorem pkgA_groups:
  "from_params example_parse_link example_get_repo ''pkgA''
      (FromSource ''root'' [Ge [1, 0], Lt [2, 0]]) None (Some registry) = Inr pkgA_node
   \<and> map (\<lambda>g. (number g, map version (all_releases g), map version (releases g)))
        (fst (groups pkgA_node))
      = [(0, [[2, 0]], []), (1, [[1, 9], [1, 5]], [[1, 9], [1, 5]]), (2, [[1, 0]], [[1, 0]])]
   \<and> map (\<lambda>g. map fingerprint (all_releases g)) (fst (groups pkgA_node))
      = [[''pkgB|pkgC''], [''pkgB'', ''pkgB''], [[]]]
   \<and> map empty (fst (groups pkgA_node)) = [True, False, False]
   \<and> fst (group pkgA_node) = Some 1"
proof -
  have a: "from_params example_parse_link example_get_repo ''pkgA''
      (FromSource ''root'' [Ge [1, 0], Lt [2, 0]]) None (Some registry) = Inr pkgA_node"
    by (simp add: from_params_def example_parse_link_def Constraint_def pkgA_node_def)
  have b: "map (\<lambda>g. (number g, map version (all_releases g), map version (releases g)))
        (fst (groups pkgA_node))
      = [(0, [[2, 0]], []), (1, [[1, 9], [1, 5]], [[1, 9], [1, 5]]), (2, [[1, 0]], [[1, 0]])]"
    by code_simp
  have c: "map (\<lambda>g. map fingerprint (all_releases g)) (fst (groups pkgA_node))
      = [[''pkgB|pkgC''], [''pkgB'', ''pkgB''], [[]]]"
    by code_simp
  have d: "map empty (fst (groups pkgA_node)) = [True, False, False]" by code_simp
  have e: "fst (group pkgA_node) = Some 1" by code_simp
  show ?thesis using a b c d e by simp
qed

text \<open>
  The claim C2 as stated fails: the groups are three, not two, and the first of them
  holds release 2.0, which the range excludes only from the group's filtered releases.
\<close>

theorem pkgA_three_groups:
  "length (fst (groups pkgA_node)) = 3
   \<and> length (fst (groups pkgA_node)) \<noteq> 2
   \<and> map version (all_releases (hd (fst (groups pkgA_node)))) = [[2, 0]]"
  by code_simp


end
